theory Spec2Isabelle
  imports Main
begin

section \<open>Host-platform values\<close>

text \<open>
  The router is a custom element living in a browser. The parts of the platform that
  \<open>src/lib/router-component.ts\<close> touches are modelled as data:
  \<^item> an \<open>error\<close> is a value that a \<^verbatim>\<open>throw\<close> carries (a rejected promise for the
    \<^verbatim>\<open>async\<close> methods);
  \<^item> an \<open>obj\<close> is what \<^verbatim>\<open>new\<close> gives back; only DOM nodes can be appended to the router;
  \<^item> a \<open>js_value\<close> is what the \<^verbatim>\<open>component\<close> field of a route may hold;
  \<^item> a \<open>guard\<close> is a user function \<^verbatim>\<open>(router, route) => boolean\<close>, given by its identity;
    what a call of it does (it returns a boolean or throws) may change from one navigation
    to the next and is read from the \<open>host\<close>.
  What calling, awaiting or constructing a component value yields is part of the value:
  \<open>Class k\<close> is a class whose \<^verbatim>\<open>new\<close> gives \<open>k\<close>; \<open>Function f k\<close> is a function that is not a
  class, a call of which gives \<open>f\<close> and \<^verbatim>\<open>new\<close> on which gives \<open>k\<close>; \<open>Promise x\<close> is a promise that
  settles to \<open>x\<close>; \<open>Module d\<close> is an object whose property \<^verbatim>\<open>default\<close> is \<open>d\<close>. \<open>Inl\<close> is a throw
  (a rejection for a promise). Route objects are not mutated while the router runs.
\<close>

datatype error =
    NoRoutesMatches string
  | RouteNeedsComponentOrRedirect nat
  | SyntaxError string
  | TypeError
  | UserError nat

datatype obj = Obj (is_node: bool) (obj_id: nat)

datatype js_value =
    Undefined
  | Class "error + obj"
  | Function "error + js_value" "error + obj"
  | Promise "error + js_value"
  | Module js_value

datatype guard = Guard nat

subsection \<open>Regular expressions\<close>

text \<open>
  A fragment of ECMAScript regular expressions (no flags), with the two anchors the
  source relies on. \<open>ends re s i\<close> lists the positions where a match of \<open>re\<close> that starts
  at position \<open>i\<close> of \<open>s\<close> can end; \<open>regexp_test re s\<close> is \<^verbatim>\<open>s.match(re) != null\<close>: a match
  may start anywhere in \<open>s\<close>.
\<close>

datatype regexp =
    Empty
  | Chr char
  | AnyChar
  | Bol
  | Eol
  | Seq regexp regexp
  | Alt regexp regexp
  | Star regexp

fun closure :: "nat \<Rightarrow> (nat \<Rightarrow> nat list) \<Rightarrow> nat list \<Rightarrow> nat list" where
  "closure 0 f xs = xs"
| "closure (Suc n) f xs = closure n f (remdups (xs @ concat (map f xs)))"

primrec ends :: "regexp \<Rightarrow> string \<Rightarrow> nat \<Rightarrow> nat list" where
  "ends Empty s i = [i]"
| "ends (Chr c) s i = (if i < length s \<and> s ! i = c then [Suc i] else [])"
| "ends AnyChar s i =
     (if i < length s \<and> s ! i \<noteq> CHR 0x0A \<and> s ! i \<noteq> CHR 0x0D then [Suc i] else [])"
| "ends Bol s i = (if i = 0 then [i] else [])"
| "ends Eol s i = (if i = length s then [i] else [])"
| "ends (Seq a b) s i = concat (map (ends b s) (ends a s i))"
| "ends (Alt a b) s i = ends a s i @ ends b s i"
| "ends (Star a) s i = closure (Suc (length s)) (ends a s) [i]"

definition regexp_test :: "regexp \<Rightarrow> string \<Rightarrow> bool" where
  "regexp_test re s = list_ex (\<lambda>i. ends re s i \<noteq> []) [0..<Suc (length s)]"

text \<open>
  The host at the time of one navigation: the platform's \<^verbatim>\<open>new RegExp(string)\<close>, which
  \<open>String.prototype.match\<close> applies to a string pattern and which throws a SyntaxError on a
  malformed one; \<^verbatim>\<open>Router.currentPath\<close> (the class \<open>Router\<close> of \<open>src/lib/router.ts\<close> is not
  among the sources); and what each guard does when it is called.
\<close>

record host =
  RegExp :: "string \<Rightarrow> error + regexp"
  currentPath :: string
  guard_call :: "guard \<Rightarrow> error + bool"

section \<open>Routes and the router component\<close>

text \<open>
  \<open>IRoute\<close>. The field \<open>oid\<close> is the identity of the route object: the source compares
  routes by reference (\<^verbatim>\<open>this.currentRoute !== route\<close>), and two route literals with equal
  fields are different objects. \<open>component = Undefined\<close> and \<open>None\<close> in the optional fields
  stand for \<^verbatim>\<open>null\<close> or \<^verbatim>\<open>undefined\<close>.
\<close>

datatype pattern = PString string | PRegExp regexp

record route =
  oid :: nat
  path :: pattern
  component :: js_value
  guards :: "guard list option"
  scrollToTop :: "bool option"
  redirectTo :: "string option"

datatype RouterEventKind = NavigationStart | NavigationCancel | NavigationEnd | NavigationError

text \<open>
  Everything the component does to the outside world is appended to a trace, in the
  order in which it happens:
  \<^item> \<open>GuardCalled g\<close>: \<^verbatim>\<open>guard(this, route)\<close>;
  \<^item> \<open>RouterDispatch kind route\<close>: \<^verbatim>\<open>Router.dispatchEvent(kind, route)\<close>;
  \<^item> \<open>ReplaceState target\<close>: \<^verbatim>\<open>Router.replaceState(null, null, target)\<close>;
  \<^item> \<open>PushState target\<close>: a push of a new history entry, which the component never makes;
  \<^item> \<open>FactoryCalled\<close>: \<^verbatim>\<open>route.component()\<close>;
  \<^item> \<open>Constructed page\<close>: \<^verbatim>\<open>new module.default()\<close> or \<^verbatim>\<open>new module()\<close>;
  \<^item> \<open>SetParentRouter page\<close>: \<^verbatim>\<open>page.parentRouter = this\<close>;
  \<^item> \<open>RemoveChild\<close>, \<open>AppendChild\<close>: \<^verbatim>\<open>this.removeChild(previousPage)\<close>, \<^verbatim>\<open>this.appendChild(page)\<close>;
  \<^item> \<open>ScrollTo 0 0\<close>: \<^verbatim>\<open>window.scrollTo(0, 0)\<close>;
  \<^item> \<open>DidChangeRoute route\<close>: \<open>dispatchDidChangeRouteEvent\<close>, the custom event dispatched on the
    router itself, to which a child router listens.

  Modelled from the spec: the class \<open>Router\<close> of \<open>src/lib/router.ts\<close> is not among the sources.
  Its \<open>replaceState\<close> is read as the specification says, as replacing the current history
  entry, and its \<open>dispatchEvent\<close> as a global notification; the model records the calls and
  does not follow what listeners do with them.
\<close>

datatype event =
    GuardCalled guard
  | RouterDispatch RouterEventKind route
  | ReplaceState string
  | PushState string
  | FactoryCalled
  | Constructed obj
  | SetParentRouter obj
  | RemoveChild obj
  | AppendChild obj
  | ScrollTo nat nat
  | DidChangeRoute route

record RouterComponent =
  routes :: "route list"
  currentRoute :: "route option"
  childNodes :: "obj list"
  trace :: "event list"

definition emit :: "event \<Rightarrow> RouterComponent \<Rightarrow> RouterComponent" where
  "emit e s = s\<lparr>trace := trace s @ [e]\<rparr>"

subsection \<open>matchRoute\<close>

text \<open>
  \<open>string_match h s pat\<close> is \<^verbatim>\<open>s.match(pat) != null\<close>. \<open>matchRoute\<close> is the loop over
  \<^verbatim>\<open>this.routes\<close>; \<^verbatim>\<open>/^$/\<close> is \<open>Seq Bol Eol\<close>.
\<close>

definition string_match :: "host \<Rightarrow> string \<Rightarrow> pattern \<Rightarrow> error + bool" where
  "string_match h s pat =
     (case pat of
        PRegExp re \<Rightarrow> Inr (regexp_test re s)
      | PString src \<Rightarrow>
          (case RegExp h src of Inl e \<Rightarrow> Inl e | Inr re \<Rightarrow> Inr (regexp_test re s)))"

fun matchRoute :: "host \<Rightarrow> route list \<Rightarrow> string \<Rightarrow> error + route option" where
  "matchRoute h [] p = Inr None"
| "matchRoute h (r # rs) p =
     (let matchPath = (if path r = PString [] then PRegExp (Seq Bol Eol) else path r) in
      case string_match h p matchPath of
        Inl e \<Rightarrow> Inl e
      | Inr matched \<Rightarrow> if matched then Inr (Some r) else matchRoute h rs p)"

subsection \<open>loadPath\<close>

text \<open>
  A block of statements falls through to the next statement, returns from the method or
  throws. \<open>guards_loop\<close> is the loop over \<^verbatim>\<open>route.guards\<close>; \<open>navigate_to\<close> is the body of
  \<^verbatim>\<open>if (navigate) { ... }\<close>; \<open>loadPath_try\<close> is the \<^verbatim>\<open>try\<close> block; \<open>loadPath\<close> is the method: the
  search for the route, the configuration check, the \<^verbatim>\<open>try\<close> block and its \<^verbatim>\<open>catch\<close>. The
  method is \<^verbatim>\<open>async\<close>: \<open>Inr b\<close> is a promise fulfilled with \<open>b\<close>, \<open>Inl e\<close> one rejected with \<open>e\<close>.
  A load runs to its end before the next one begins.
\<close>

datatype 'a ctl = Next | Return 'a | Throw error

fun guards_loop :: "host \<Rightarrow> route \<Rightarrow> guard list \<Rightarrow> RouterComponent \<Rightarrow> bool ctl \<times> RouterComponent" where
  "guards_loop h r [] s = (Next, s)"
| "guards_loop h r (g # gs) s =
     (let s1 = emit (GuardCalled g) s in
      case guard_call h g of
        Inl e \<Rightarrow> (Throw e, s1)
      | Inr ok \<Rightarrow>
          if \<not> ok then (Return False, emit (RouterDispatch NavigationCancel r) s1)
          else guards_loop h r gs s1)"

definition isFunction :: "js_value \<Rightarrow> bool" where
  "isFunction v = (case v of Class _ \<Rightarrow> True | Function _ _ \<Rightarrow> True | _ \<Rightarrow> False)"

text \<open>
  Modelled from the spec: \<open>isClass\<close> of \<open>src/lib/util.ts\<close>, which is not among the sources.
  The spec speaks of a "non-class function (a deferred factory)": a function value is a
  class or it is not, and the model keeps the two apart by constructor.
\<close>

definition isClass :: "js_value \<Rightarrow> bool" where
  "isClass v = (case v of Class _ \<Rightarrow> True | _ \<Rightarrow> False)"

text \<open>
  The steps of component resolution: \<open>call\<close> is \<^verbatim>\<open>route.component()\<close>, \<open>await\<close> is
  \<^verbatim>\<open>await Promise.resolve(component)\<close>, \<open>construct v\<close> is \<^verbatim>\<open>new v()\<close>, and \<open>new_page m\<close> is
  \<^verbatim>\<open>module.default ? new module.default() : new module()\<close>, where reading a property of
  \<^verbatim>\<open>null\<close> or \<^verbatim>\<open>undefined\<close> throws a TypeError.
\<close>

definition call :: "js_value \<Rightarrow> RouterComponent \<Rightarrow> (error + js_value) \<times> RouterComponent" where
  "call v s = (case v of Function f _ \<Rightarrow> (f, emit FactoryCalled s) | _ \<Rightarrow> (Inl TypeError, s))"

fun await :: "js_value \<Rightarrow> error + js_value" where
  "await (Promise (Inl e)) = Inl e"
| "await (Promise (Inr v)) = await v"
| "await v = Inr v"

definition construct :: "js_value \<Rightarrow> error + obj" where
  "construct v = (case v of Class k \<Rightarrow> k | Function _ k \<Rightarrow> k | _ \<Rightarrow> Inl TypeError)"

definition new_page :: "js_value \<Rightarrow> error + obj" where
  "new_page m =
     (case m of
        Undefined \<Rightarrow> Inl TypeError
      | Module d \<Rightarrow> if d \<noteq> Undefined then construct d else construct m
      | _ \<Rightarrow> construct m)"

definition navigate_to :: "route \<Rightarrow> RouterComponent \<Rightarrow> bool ctl \<times> RouterComponent" where
  "navigate_to r s =
     (let s1 = emit (RouterDispatch NavigationStart r) s in
      case redirectTo r of
        Some target \<Rightarrow> (Return False, emit (ReplaceState target) s1)
      | None \<Rightarrow>
          (case (if isFunction (component r) \<and> \<not> isClass (component r)
                 then call (component r) s1 else (Inr (component r), s1)) of
             (Inl e, s2) \<Rightarrow> (Throw e, s2)
           | (Inr c, s2) \<Rightarrow>
               (case await c of
                  Inl e \<Rightarrow> (Throw e, s2)
                | Inr m \<Rightarrow>
                    (case new_page m of
                       Inl e \<Rightarrow> (Throw e, s2)
                     | Inr page \<Rightarrow>
                         (let s3 = emit (SetParentRouter page) (emit (Constructed page) s2);
                              s4 = (case childNodes s3 of
                                      [] \<Rightarrow> s3
                                    | previousPage # rest \<Rightarrow>
                                        (emit (RemoveChild previousPage) s3)\<lparr>childNodes := rest\<rparr>)
                          in if \<not> is_node page then (Throw TypeError, s4)
                             else (Next, (emit (AppendChild page) s4)
                                           \<lparr>childNodes := childNodes s4 @ [page],
                                            currentRoute := Some r\<rparr>))))))"

definition loadPath_try :: "host \<Rightarrow> route \<Rightarrow> RouterComponent \<Rightarrow> (error + bool) \<times> RouterComponent" where
  "loadPath_try h r s =
     (case (case guards r of None \<Rightarrow> (Next, s) | Some gs \<Rightarrow> guards_loop h r gs s) of
        (Throw e, s1) \<Rightarrow> (Inl e, s1)
      | (Return b, s1) \<Rightarrow> (Inr b, s1)
      | (Next, s1) \<Rightarrow>
          (let navigate = (currentRoute s1 \<noteq> Some r) in
           case (if navigate then navigate_to r s1 else (Next, s1)) of
             (Throw e, s2) \<Rightarrow> (Inl e, s2)
           | (Return b, s2) \<Rightarrow> (Inr b, s2)
           | (Next, s2) \<Rightarrow>
               (let s3 = (if scrollToTop r = None \<or> scrollToTop r = Some True
                          then emit (ScrollTo 0 0) s2 else s2);
                    s4 = emit (DidChangeRoute r) s3;
                    s5 = (if navigate then emit (RouterDispatch NavigationEnd r) s4 else s4)
                in (Inr navigate, s5))))"

definition loadPath :: "host \<Rightarrow> string \<Rightarrow> RouterComponent \<Rightarrow> (error + bool) \<times> RouterComponent" where
  "loadPath h p s =
     (case matchRoute h (routes s) p of
        Inl e \<Rightarrow> (Inl e, s)
      | Inr None \<Rightarrow> (Inl (NoRoutesMatches p), s)
      | Inr (Some r) \<Rightarrow>
          if component r = Undefined \<and> redirectTo r = None
             \<and> \<not> (component r \<noteq> Undefined \<and> redirectTo r \<noteq> None)
          then (Inl (RouteNeedsComponentOrRedirect (oid r)), s)
          else (case loadPath_try h r s of
                  (Inl e, s1) \<Rightarrow> (Inl e, emit (RouterDispatch NavigationError r) s1)
                | (Inr b, s1) \<Rightarrow> (Inr b, s1)))"

subsection \<open>setup\<close>

text \<open>
  The method \<^verbatim>\<open>setup(routes, parentRouter, navigate)\<close> is \<open>setupRoutes\<close> here. The listeners
  it installs are wiring to the window or to the parent router; what they run is
  \<open>onPathChanged\<close>.

  \<open>clearRoutes\<close> sets the length of \<^verbatim>\<open>this.routes\<close> to 0: it empties the array in place. After
  a first \<^verbatim>\<open>setup\<close> that array is the caller's own (\<^verbatim>\<open>this.routes = routes\<close> keeps the
  reference), so the argument of \<^verbatim>\<open>setup\<close> is one of two things: an array that the router
  does not hold, given by its contents (\<open>NewArray rs\<close>), or the very array that \<^verbatim>\<open>this.routes\<close>
  refers to (\<open>InstalledArray\<close>). The second has been emptied by \<open>clearRoutes\<close> when it is
  assigned again, and the router is left without routes. An array that was installed
  earlier and replaced since was emptied when it was replaced: it is a \<open>NewArray\<close> with the
  contents it has at the call. Nobody else changes an array while the router holds it.
\<close>

datatype routes_argument = NewArray "route list" | InstalledArray

definition clearRoutes :: "RouterComponent \<Rightarrow> RouterComponent" where
  "clearRoutes s = s\<lparr>routes := []\<rparr>"

definition onPathChanged :: "host \<Rightarrow> RouterComponent \<Rightarrow> (error + unit) \<times> RouterComponent" where
  "onPathChanged h s =
     (case loadPath h (currentPath h) s of
        (Inl e, s1) \<Rightarrow> (Inl e, s1)
      | (Inr _, s1) \<Rightarrow> (Inr (), s1))"

definition setupRoutes :: "host \<Rightarrow> routes_argument \<Rightarrow> bool \<Rightarrow> RouterComponent \<Rightarrow> (error + unit) \<times> RouterComponent" where
  "setupRoutes h arg navigate s =
     (let s1 = clearRoutes s;
          s2 = s1\<lparr>routes := (case arg of NewArray rs \<Rightarrow> rs | InstalledArray \<Rightarrow> routes s1)\<rparr>
      in if navigate then onPathChanged h s2 else (Inr (), s2))"

text \<open>
  The states a router can be in: it is created with no routes and no current route, and
  from then on only \<open>setupRoutes\<close> and \<open>onPathChanged\<close> act on it, each under the host of its
  own time.
\<close>

inductive reachable :: "RouterComponent \<Rightarrow> bool" where
  created: "routes s = [] \<Longrightarrow> currentRoute s = None \<Longrightarrow> reachable s"
| after_setup: "reachable s \<Longrightarrow> reachable (snd (setupRoutes h arg navigate s))"
| after_path_change: "reachable s \<Longrightarrow> reachable (snd (onPathChanged h s))"

subsection \<open>The second copy of matchRoute\<close>

text \<open>
  The repository holds a second source file with the same class (it declares \<open>IRoute\<close>
  itself). Its \<open>matchRoute\<close> has no case for the empty pattern: \<open>route.path\<close> goes to
  \<open>String.prototype.match\<close> as it is.
\<close>

fun matchRoute_plain :: "host \<Rightarrow> route list \<Rightarrow> string \<Rightarrow> error + route option" where
  "matchRoute_plain h [] p = Inr None"
| "matchRoute_plain h (r # rs) p =
     (case string_match h p (path r) of
        Inl e \<Rightarrow> Inl e
      | Inr matched \<Rightarrow> if matched then Inr (Some r) else matchRoute_plain h rs p)"

section \<open>Vocabulary of the properties\<close>

text \<open>
  The route-matching contract in the specification's words: a pattern matches a path as
  \<open>String.prototype.match\<close> says, except that the empty pattern string matches only the
  empty path.
\<close>

definition pattern_matches :: "host \<Rightarrow> pattern \<Rightarrow> string \<Rightarrow> error + bool" where
  "pattern_matches h pat p = (if pat = PString [] then Inr (p = []) else string_match h p pat)"

definition passes :: "host \<Rightarrow> guard \<Rightarrow> bool" where
  "passes h g = (guard_call h g = Inr True)"

definition the_guards :: "route \<Rightarrow> guard list" where
  "the_guards r = (case guards r of None \<Rightarrow> [] | Some gs \<Rightarrow> gs)"

definition add_events :: "event list \<Rightarrow> RouterComponent \<Rightarrow> RouterComponent" where
  "add_events evs s = s\<lparr>trace := trace s @ evs\<rparr>"

definition is_GuardCalled :: "event \<Rightarrow> bool" where
  "is_GuardCalled ev = (case ev of GuardCalled _ \<Rightarrow> True | _ \<Rightarrow> False)"

definition scroll_events :: "route \<Rightarrow> event list" where
  "scroll_events r = (if scrollToTop r = None \<or> scrollToTop r = Some True then [ScrollTo 0 0] else [])"

definition removal_events :: "RouterComponent \<Rightarrow> event list" where
  "removal_events s = (case childNodes s of [] \<Rightarrow> [] | previousPage # _ \<Rightarrow> [RemoveChild previousPage])"

text \<open>
  Component resolution without the trace: a factory is a function that is not a class;
  \<open>deferred c\<close> is the value after the optional factory call, \<open>component_page c\<close> the page
  that the three steps (call, await, \<^verbatim>\<open>new\<close>) end with, or the error of the first step
  that throws.
\<close>

definition is_factory :: "js_value \<Rightarrow> bool" where
  "is_factory c = (isFunction c \<and> \<not> isClass c)"

definition factory_events :: "js_value \<Rightarrow> event list" where
  "factory_events c = (if is_factory c then [FactoryCalled] else [])"

definition deferred :: "js_value \<Rightarrow> error + js_value" where
  "deferred c = (if is_factory c then (case c of Function f _ \<Rightarrow> f | _ \<Rightarrow> Inl TypeError) else Inr c)"

definition component_page :: "js_value \<Rightarrow> error + obj" where
  "component_page c =
     (case deferred c of
        Inl e \<Rightarrow> Inl e
      | Inr v \<Rightarrow> (case await v of Inl e \<Rightarrow> Inl e | Inr m \<Rightarrow> new_page m))"

text \<open>
  The routes that a \<^verbatim>\<open>setup\<close> leaves in the router.
\<close>

definition installed :: "routes_argument \<Rightarrow> route list" where
  "installed arg = (case arg of NewArray rs \<Rightarrow> rs | InstalledArray \<Rightarrow> [])"

text \<open>
  What holds of the current route in every state the router can reach (see
  \<open>reachable_current_ok\<close>): it has no redirect target and it has a component.
\<close>

definition current_ok :: "RouterComponent \<Rightarrow> bool" where
  "current_ok s = (case currentRoute s of None \<Rightarrow> True
     | Some r \<Rightarrow> redirectTo r = None \<and> component r \<noteq> Undefined)"

text \<open>
  An error is thrown inside the \<^verbatim>\<open>try\<close> block of \<open>loadPath\<close>, that is after guard evaluation
  has begun: the first guard that does not return true throws it; or all guards let pass,
  the route is a new one without redirect target, and component resolution throws it or
  yields something that is not a DOM node, on which \<^verbatim>\<open>appendChild\<close> throws a TypeError.
\<close>

definition thrown_in_try :: "host \<Rightarrow> route \<Rightarrow> RouterComponent \<Rightarrow> error \<Rightarrow> bool" where
  "thrown_in_try h r s e =
     (case dropWhile (passes h) (the_guards r) of
        g # _ \<Rightarrow> guard_call h g = Inl e
      | [] \<Rightarrow>
          currentRoute s \<noteq> Some r \<and> redirectTo r = None
          \<and> (case component_page (component r) of
                Inl e' \<Rightarrow> e' = e
              | Inr page \<Rightarrow> \<not> is_node page \<and> e = TypeError))"

section \<open>A small application\<close>

text \<open>
  A router table used to run the definitions. \<open>literal_RegExp\<close> is \<^verbatim>\<open>new RegExp\<close> on
  patterns without metacharacters. The guard \<open>Guard 1\<close> refuses and \<open>Guard 2\<close> throws on the
  \<open>strict_host\<close>; every guard lets pass on the \<open>open_host\<close>.
\<close>

definition literal_RegExp :: "string \<Rightarrow> error + regexp" where
  "literal_RegExp src = Inr (foldr (\<lambda>c. Seq (Chr c)) src Empty)"

definition open_host :: host where
  "open_host = \<lparr>RegExp = literal_RegExp, currentPath = ''home'', guard_call = (\<lambda>g. Inr True)\<rparr>"

definition strict_host :: host where
  "strict_host = \<lparr>RegExp = literal_RegExp, currentPath = ''admin'',
     guard_call = (\<lambda>g. if g = Guard 1 then Inr False
                        else if g = Guard 2 then Inl (UserError 1) else Inr True)\<rparr>"

definition route_root :: route where
  "route_root = \<lparr>oid = 0, path = PString [], component = Undefined,
     guards = Some [Guard 0], scrollToTop = None, redirectTo = Some ''home''\<rparr>"

definition route_home :: route where
  "route_home = \<lparr>oid = 1, path = PString ''home'', component = Class (Inr (Obj True 1)),
     guards = None, scrollToTop = None, redirectTo = None\<rparr>"

definition route_lazy :: route where
  "route_lazy = \<lparr>oid = 2, path = PString ''lazy'',
     component = Function (Inr (Promise (Inr (Module (Class (Inr (Obj True 2))))))) (Inl TypeError),
     guards = Some [Guard 0], scrollToTop = Some False, redirectTo = None\<rparr>"

definition route_admin :: route where
  "route_admin = \<lparr>oid = 3, path = PString ''admin'', component = Class (Inr (Obj True 3)),
     guards = Some [Guard 0, Guard 1, Guard 2], scrollToTop = None, redirectTo = None\<rparr>"

definition route_offline :: route where
  "route_offline = \<lparr>oid = 4, path = PString ''offline'', component = Promise (Inl (UserError 7)),
     guards = None, scrollToTop = None, redirectTo = None\<rparr>"

definition route_both :: route where
  "route_both = \<lparr>oid = 5, path = PString ''both'', component = Class (Inr (Obj True 5)),
     guards = None, scrollToTop = None, redirectTo = Some ''home''\<rparr>"

definition route_locked :: route where
  "route_locked = \<lparr>oid = 6, path = PString ''locked'', component = Class (Inr (Obj True 6)),
     guards = Some [Guard 2], scrollToTop = None, redirectTo = None\<rparr>"

definition app_routes :: "route list" where
  "app_routes = [route_root, route_home, route_lazy, route_admin, route_offline, route_both, route_locked]"

definition new_router :: RouterComponent where
  "new_router = \<lparr>routes = [], currentRoute = None, childNodes = [], trace = []\<rparr>"

definition app_router :: RouterComponent where
  "app_router = new_router\<lparr>routes := app_routes\<rparr>"

section \<open>Facts about the definitions\<close>

subsection \<open>Matching\<close>

lemma regexp_test_anchored_empty: "regexp_test (Seq Bol Eol) s \<longleftrightarrow> s = []"
  by (auto simp: regexp_test_def list_ex_iff)

lemma matchPath_pattern_matches:
  "string_match h p (if pat = PString [] then PRegExp (Seq Bol Eol) else pat) = pattern_matches h pat p"
  by (simp add: pattern_matches_def string_match_def regexp_test_anchored_empty)

subsection \<open>The trace, the guard loop and the navigation step\<close>

lemma emit_add_events: "emit e s = add_events [e] s"
  by (simp add: emit_def add_events_def)

lemma add_events_add_events: "add_events b (add_events a s) = add_events (a @ b) s"
  by (simp add: add_events_def)

lemma add_events_Nil: "add_events [] s = s"
  by (simp add: add_events_def)

lemma add_events_fields:
  "routes (add_events evs s) = routes s"
  "currentRoute (add_events evs s) = currentRoute s"
  "childNodes (add_events evs s) = childNodes s"
  "trace (add_events evs s) = trace s @ evs"
  by (simp_all add: add_events_def)

lemma guards_loop_step_pass:
  "passes h g \<Longrightarrow> guards_loop h r (g # gs) s = guards_loop h r gs (add_events [GuardCalled g] s)"
  by (simp add: passes_def emit_add_events)

lemma guards_loop_all_pass:
  "\<forall>g\<in>set gs. passes h g \<Longrightarrow> guards_loop h r gs s = (Next, add_events (map GuardCalled gs) s)"
proof (induction gs arbitrary: s)
  case Nil
  show ?case by (simp add: add_events_Nil)
next
  case (Cons g gs)
  then show ?case by (simp add: guards_loop_step_pass add_events_add_events del: guards_loop.simps)
qed

lemma guards_loop_stops:
  "\<forall>x\<in>set pre. passes h x \<Longrightarrow> \<not> passes h g \<Longrightarrow>
   guards_loop h r (pre @ g # post) s =
     (case guard_call h g of
        Inl e \<Rightarrow> (Throw e, add_events (map GuardCalled (pre @ [g])) s)
      | Inr _ \<Rightarrow> (Return False,
            add_events (map GuardCalled (pre @ [g]) @ [RouterDispatch NavigationCancel r]) s))"
proof (induction pre arbitrary: s)
  case Nil
  then show ?case
    by (cases "guard_call h g") (auto simp: passes_def emit_add_events add_events_add_events)
next
  case (Cons x pre)
  then show ?case
    by (simp add: guards_loop_step_pass add_events_add_events del: guards_loop.simps split: sum.splits)
qed

lemma navigate_to_redirect:
  "redirectTo r = Some target \<Longrightarrow>
   navigate_to r s = (Return False, add_events [RouterDispatch NavigationStart r, ReplaceState target] s)"
  by (simp add: navigate_to_def emit_add_events add_events_add_events)

lemma resolve_step:
  "(if isFunction c \<and> \<not> isClass c then call c s else (Inr c, s)) =
     (deferred c, add_events (factory_events c) s)"
  by (cases c) (simp_all add: deferred_def is_factory_def factory_events_def isFunction_def isClass_def call_def
      emit_add_events add_events_Nil)

lemma navigate_to_resolve_fails:
  "redirectTo r = None \<Longrightarrow> component_page (component r) = Inl e \<Longrightarrow>
   navigate_to r s = (Throw e, add_events (RouterDispatch NavigationStart r # factory_events (component r)) s)"
  unfolding navigate_to_def Let_def resolve_step
  by (auto simp: component_page_def emit_add_events add_events_add_events split: sum.splits)

lemma navigate_to_not_node:
  "redirectTo r = None \<Longrightarrow> component_page (component r) = Inr page \<Longrightarrow> \<not> is_node page \<Longrightarrow>
   navigate_to r s = (Throw TypeError,
      (add_events (RouterDispatch NavigationStart r # factory_events (component r)
          @ [Constructed page, SetParentRouter page] @ removal_events s) s)\<lparr>childNodes := drop 1 (childNodes s)\<rparr>)"
  unfolding navigate_to_def Let_def resolve_step
  by (auto simp: component_page_def emit_add_events add_events_add_events add_events_fields removal_events_def
      add_events_def split: sum.splits list.splits)

lemma navigate_to_render:
  "redirectTo r = None \<Longrightarrow> component_page (component r) = Inr page \<Longrightarrow> is_node page \<Longrightarrow>
   navigate_to r s = (Next,
      (add_events (RouterDispatch NavigationStart r # factory_events (component r)
          @ [Constructed page, SetParentRouter page] @ removal_events s @ [AppendChild page]) s)
        \<lparr>childNodes := drop 1 (childNodes s) @ [page], currentRoute := Some r\<rparr>)"
  unfolding navigate_to_def Let_def resolve_step
  by (auto simp: component_page_def emit_add_events add_events_add_events add_events_fields removal_events_def
      add_events_def split: sum.splits list.splits)


lemma guards_phase:
  "(case guards r of None \<Rightarrow> (Next, s) | Some gs \<Rightarrow> guards_loop h r gs s) = guards_loop h r (the_guards r) s"
  by (simp add: the_guards_def split: option.splits)

lemma not_passes_cases:
  assumes "\<not> passes h g"
  obtains (throws) e where "guard_call h g = Inl e" | (refuses) "guard_call h g = Inr False"
  using assms by (cases "guard_call h g") (auto simp: passes_def)

lemma loadPath_try_guard_stops:
  assumes "the_guards r = pre @ g # post" "\<forall>x\<in>set pre. passes h x" "\<not> passes h g"
  shows "loadPath_try h r s =
    (case guard_call h g of
       Inl e \<Rightarrow> (Inl e, add_events (map GuardCalled (pre @ [g])) s)
     | Inr _ \<Rightarrow> (Inr False, add_events (map GuardCalled (pre @ [g]) @ [RouterDispatch NavigationCancel r]) s))"
  unfolding loadPath_try_def guards_phase assms(1) guards_loop_stops [OF assms(2,3)]
  by (simp split: sum.splits)

lemma loadPath_try_passed:
  assumes "\<forall>x\<in>set (the_guards r). passes h x"
  shows "loadPath_try h r s =
    (let s1 = add_events (map GuardCalled (the_guards r)) s; navigate = (currentRoute s \<noteq> Some r) in
     case (if navigate then navigate_to r s1 else (Next, s1)) of
       (Throw e, s2) \<Rightarrow> (Inl e, s2)
     | (Return b, s2) \<Rightarrow> (Inr b, s2)
     | (Next, s2) \<Rightarrow>
         (Inr navigate, add_events (scroll_events r @ [DidChangeRoute r]
             @ (if navigate then [RouterDispatch NavigationEnd r] else [])) s2))"
  unfolding loadPath_try_def guards_phase guards_loop_all_pass [OF assms]
  by (auto simp: Let_def add_events_fields emit_add_events add_events_add_events scroll_events_def
      add_events_Nil split: ctl.splits prod.splits)

lemma loadPath_try_cases [case_names guard_throws guard_refuses same redirect resolve_fails not_node render]:
  obtains
    (guard_throws) pre g post e where
      "the_guards r = pre @ g # post" "\<forall>x\<in>set pre. passes h x" "guard_call h g = Inl e"
      "loadPath_try h r s = (Inl e, add_events (map GuardCalled (pre @ [g])) s)"
  | (guard_refuses) pre g post where
      "the_guards r = pre @ g # post" "\<forall>x\<in>set pre. passes h x" "guard_call h g = Inr False"
      "loadPath_try h r s =
         (Inr False, add_events (map GuardCalled (pre @ [g]) @ [RouterDispatch NavigationCancel r]) s)"
  | (same) "\<forall>x\<in>set (the_guards r). passes h x" "currentRoute s = Some r"
      "loadPath_try h r s =
         (Inr False, add_events (map GuardCalled (the_guards r) @ scroll_events r @ [DidChangeRoute r]) s)"
  | (redirect) target where
      "\<forall>x\<in>set (the_guards r). passes h x" "currentRoute s \<noteq> Some r" "redirectTo r = Some target"
      "loadPath_try h r s =
         (Inr False, add_events (map GuardCalled (the_guards r)
             @ [RouterDispatch NavigationStart r, ReplaceState target]) s)"
  | (resolve_fails) e where
      "\<forall>x\<in>set (the_guards r). passes h x" "currentRoute s \<noteq> Some r" "redirectTo r = None"
      "component_page (component r) = Inl e"
      "loadPath_try h r s =
         (Inl e, add_events (map GuardCalled (the_guards r)
             @ RouterDispatch NavigationStart r # factory_events (component r)) s)"
  | (not_node) page where
      "\<forall>x\<in>set (the_guards r). passes h x" "currentRoute s \<noteq> Some r" "redirectTo r = None"
      "component_page (component r) = Inr page" "\<not> is_node page"
      "loadPath_try h r s =
         (Inl TypeError, (add_events (map GuardCalled (the_guards r)
             @ RouterDispatch NavigationStart r # factory_events (component r)
             @ [Constructed page, SetParentRouter page] @ removal_events s) s)
           \<lparr>childNodes := drop 1 (childNodes s)\<rparr>)"
  | (render) page where
      "\<forall>x\<in>set (the_guards r). passes h x" "currentRoute s \<noteq> Some r" "redirectTo r = None"
      "component_page (component r) = Inr page" "is_node page"
      "loadPath_try h r s =
         (Inr True, (add_events (map GuardCalled (the_guards r)
             @ RouterDispatch NavigationStart r # factory_events (component r)
             @ [Constructed page, SetParentRouter page] @ removal_events s @ [AppendChild page]
             @ scroll_events r @ [DidChangeRoute r, RouterDispatch NavigationEnd r]) s)
           \<lparr>childNodes := drop 1 (childNodes s) @ [page], currentRoute := Some r\<rparr>)"
proof (cases "\<forall>x\<in>set (the_guards r). passes h x")
  case False
  then obtain pre g post where d: "the_guards r = pre @ g # post" "\<not> passes h g" "\<forall>x\<in>set pre. passes h x"
    using split_list_first_prop [of "the_guards r" "\<lambda>x. \<not> passes h x"] by auto
  from d(2) show ?thesis
  proof (cases rule: not_passes_cases)
    case (throws e)
    then show ?thesis using guard_throws [OF d(1) d(3)] loadPath_try_guard_stops [OF d(1) d(3) d(2), of s]
      by simp
  next
    case refuses
    then show ?thesis using guard_refuses [OF d(1) d(3)] loadPath_try_guard_stops [OF d(1) d(3) d(2), of s]
      by simp
  qed
next
  case True
  note pass = this
  show ?thesis
  proof (cases "currentRoute s = Some r")
    case True
    then show ?thesis using same [OF pass] loadPath_try_passed [OF pass, of s]
      by (simp add: add_events_add_events)
  next
    case False
    note nav = this
    show ?thesis
    proof (cases "redirectTo r")
      case (Some target)
      then show ?thesis using redirect [OF pass nav] loadPath_try_passed [OF pass, of s] nav
        by (simp add: navigate_to_redirect add_events_add_events)
    next
      case None
      show ?thesis
      proof (cases "component_page (component r)")
        case (Inl e)
        then show ?thesis
          using resolve_fails [OF pass nav None] loadPath_try_passed [OF pass, of s] nav
          by (simp add: navigate_to_resolve_fails [OF None] add_events_add_events)
      next
        case (Inr page)
        show ?thesis
        proof (cases "is_node page")
          case True
          then show ?thesis
            using render [OF pass nav None Inr] loadPath_try_passed [OF pass, of s] nav
            by (simp add: navigate_to_render [OF None Inr] add_events_add_events add_events_fields
                removal_events_def add_events_def)
        next
          case False
          then show ?thesis
            using not_node [OF pass nav None Inr] loadPath_try_passed [OF pass, of s] nav
            by (simp add: navigate_to_not_node [OF None Inr] add_events_add_events add_events_fields
                removal_events_def add_events_def)
        qed
      qed
    qed
  qed
qed


lemma loadPath_matched:
  assumes "matchRoute h (routes s) p = Inr (Some r)"
  shows "loadPath h p s =
    (if component r = Undefined \<and> redirectTo r = None
     then (Inl (RouteNeedsComponentOrRedirect (oid r)), s)
     else (case loadPath_try h r s of
             (Inl e, s1) \<Rightarrow> (Inl e, add_events [RouterDispatch NavigationError r] s1)
           | (Inr b, s1) \<Rightarrow> (Inr b, s1)))"
  using assms by (auto simp: loadPath_def emit_add_events split: prod.splits sum.splits)

lemma filter_guard_events [simp]:
  "filter is_GuardCalled (map GuardCalled gs) = map GuardCalled gs"
  "filter is_GuardCalled (factory_events c) = []"
  "filter is_GuardCalled (scroll_events r) = []"
  "filter is_GuardCalled (removal_events s) = []"
  by (induction gs) (auto simp: is_GuardCalled_def factory_events_def scroll_events_def removal_events_def
      split: list.splits)

lemma is_GuardCalled_simps [simp]:
  "is_GuardCalled (GuardCalled g)"
  "\<not> is_GuardCalled (RouterDispatch k r)"
  "\<not> is_GuardCalled (ReplaceState t)"
  "\<not> is_GuardCalled (Constructed page)"
  "\<not> is_GuardCalled (SetParentRouter page)"
  "\<not> is_GuardCalled (AppendChild page)"
  "\<not> is_GuardCalled (DidChangeRoute r)"
  by (simp_all add: is_GuardCalled_def)

lemma guard_event_mem [simp]:
  "GuardCalled g \<notin> set (factory_events c)"
  "GuardCalled g \<notin> set (scroll_events r)"
  "GuardCalled g \<notin> set (removal_events s)"
  by (auto simp: factory_events_def scroll_events_def removal_events_def split: list.splits)

lemma passes_iff: "passes h g \<longleftrightarrow> guard_call h g = Inr True"
  by (simp add: passes_def)

lemma loadPath_cases [consumes 2, case_names misconfigured guard_throws guard_refuses same redirect
    resolve_fails not_node render]:
  assumes "matchRoute h (routes s) p = Inr (Some r)" and "loadPath h p s = (out, s')"
  obtains
    (misconfigured) "component r = Undefined" "redirectTo r = None"
      "out = Inl (RouteNeedsComponentOrRedirect (oid r))" "s' = s"
  | (guard_throws) pre g post e where
      "\<not> (component r = Undefined \<and> redirectTo r = None)"
      "the_guards r = pre @ g # post" "\<forall>x\<in>set pre. passes h x" "guard_call h g = Inl e"
      "out = Inl e"
      "s' = add_events (map GuardCalled (pre @ [g]) @ [RouterDispatch NavigationError r]) s"
  | (guard_refuses) pre g post where
      "\<not> (component r = Undefined \<and> redirectTo r = None)"
      "the_guards r = pre @ g # post" "\<forall>x\<in>set pre. passes h x" "guard_call h g = Inr False"
      "out = Inr False"
      "s' = add_events (map GuardCalled (pre @ [g]) @ [RouterDispatch NavigationCancel r]) s"
  | (same) "\<not> (component r = Undefined \<and> redirectTo r = None)"
      "\<forall>x\<in>set (the_guards r). passes h x" "currentRoute s = Some r"
      "out = Inr False"
      "s' = add_events (map GuardCalled (the_guards r) @ scroll_events r @ [DidChangeRoute r]) s"
  | (redirect) target where
      "\<forall>x\<in>set (the_guards r). passes h x" "currentRoute s \<noteq> Some r" "redirectTo r = Some target"
      "out = Inr False"
      "s' = add_events (map GuardCalled (the_guards r)
             @ [RouterDispatch NavigationStart r, ReplaceState target]) s"
  | (resolve_fails) e where
      "\<forall>x\<in>set (the_guards r). passes h x" "currentRoute s \<noteq> Some r" "redirectTo r = None"
      "component r \<noteq> Undefined" "component_page (component r) = Inl e"
      "out = Inl e"
      "s' = add_events (map GuardCalled (the_guards r)
             @ RouterDispatch NavigationStart r # factory_events (component r)
             @ [RouterDispatch NavigationError r]) s"
  | (not_node) page where
      "\<forall>x\<in>set (the_guards r). passes h x" "currentRoute s \<noteq> Some r" "redirectTo r = None"
      "component r \<noteq> Undefined" "component_page (component r) = Inr page" "\<not> is_node page"
      "out = Inl TypeError"
      "s' = (add_events (map GuardCalled (the_guards r)
             @ RouterDispatch NavigationStart r # factory_events (component r)
             @ [Constructed page, SetParentRouter page] @ removal_events s
             @ [RouterDispatch NavigationError r]) s)
           \<lparr>childNodes := drop 1 (childNodes s)\<rparr>"
  | (render) page where
      "\<forall>x\<in>set (the_guards r). passes h x" "currentRoute s \<noteq> Some r" "redirectTo r = None"
      "component r \<noteq> Undefined" "component_page (component r) = Inr page" "is_node page"
      "out = Inr True"
      "s' = (add_events (map GuardCalled (the_guards r)
             @ RouterDispatch NavigationStart r # factory_events (component r)
             @ [Constructed page, SetParentRouter page] @ removal_events s @ [AppendChild page]
             @ scroll_events r @ [DidChangeRoute r, RouterDispatch NavigationEnd r]) s)
           \<lparr>childNodes := drop 1 (childNodes s) @ [page], currentRoute := Some r\<rparr>"
proof (cases "component r = Undefined \<and> redirectTo r = None")
  case True
  then show ?thesis using misconfigured assms(2) loadPath_matched [OF assms(1)] by simp
next
  case False
  note ok = this
  note lp = assms(2) [unfolded loadPath_matched [OF assms(1)]]
  show ?thesis
  proof (cases rule: loadPath_try_cases [where h = h and r = r and s = s])
    case (guard_throws pre g post e)
    show ?thesis
      using guard_throws(4) lp ok
      by (intro that(2) [OF ok guard_throws(1-3)]) (auto simp: add_events_add_events)
  next
    case (guard_refuses pre g post)
    show ?thesis
      using guard_refuses(4) lp ok
      by (intro that(3) [OF ok guard_refuses(1-3)]) (auto simp: add_events_add_events)
  next
    case same
    show ?thesis
      using same(3) lp ok
      by (intro that(4) [OF ok same(1,2)]) (auto simp: add_events_add_events)
  next
    case (redirect target)
    show ?thesis
      using redirect(4) lp ok
      by (intro that(5) [OF redirect(1-3)]) (auto simp: add_events_add_events)
  next
    case (resolve_fails e)
    have c: "component r \<noteq> Undefined" using ok resolve_fails(3) by simp
    show ?thesis
      using resolve_fails(5) lp ok
      by (intro that(6) [OF resolve_fails(1-3) c resolve_fails(4)]) (auto simp: add_events_add_events)
  next
    case (not_node page)
    have c: "component r \<noteq> Undefined" using ok not_node(3) by simp
    show ?thesis
      using not_node(6) lp ok
      by (intro that(7) [OF not_node(1-3) c not_node(4,5)]) (auto simp: add_events_def)
  next
    case (render page)
    have c: "component r \<noteq> Undefined" using ok render(3) by simp
    show ?thesis
      using render(6) lp ok
      by (intro that(8) [OF render(1-3) c render(4,5)]) (auto simp: add_events_def)
  qed
qed

lemma event_mem_simps [simp]:
  "x \<in> set (factory_events c) \<longleftrightarrow> is_factory c \<and> x = FactoryCalled"
  "x \<in> set (scroll_events r) \<longleftrightarrow> (scrollToTop r = None \<or> scrollToTop r = Some True) \<and> x = ScrollTo 0 0"
  "x \<in> set (removal_events s) \<longleftrightarrow> (\<exists>c cs. childNodes s = c # cs \<and> x = RemoveChild c)"
  by (cases "childNodes s"; auto simp: factory_events_def scroll_events_def removal_events_def)+

section \<open>Route matching\<close>

text \<open>
  The \<open>matchRoute\<close> of \<open>src/lib/router-component.ts\<close> scans the route list in insertion order
  and returns the first entry whose pattern matches the path, where the empty pattern
  string matches only the empty path: the entries before the result are those on which
  \<open>pattern_matches\<close> says no, the result is the first other entry (or nothing when there is
  none), and a pattern that \<^verbatim>\<open>new RegExp\<close> rejects stops the scan with its error.
\<close>

lemma matchRoute_first_match:
  "matchRoute h rs p =
     (case dropWhile (\<lambda>r. pattern_matches h (path r) p = Inr False) rs of
        [] \<Rightarrow> Inr None
      | r # _ \<Rightarrow> (case pattern_matches h (path r) p of Inl e \<Rightarrow> Inl e | Inr _ \<Rightarrow> Inr (Some r)))"
proof (induction rs)
  case Nil
  show ?case by simp
next
  case (Cons r rs)
  show ?case
  proof (cases "pattern_matches h (path r) p")
    case (Inl e)
    then show ?thesis by (simp add: matchPath_pattern_matches)
  next
    case (Inr b)
    then show ?thesis using Cons.IH by (cases b) (simp_all add: matchPath_pattern_matches)
  qed
qed

text \<open>
  The second copy of \<open>matchRoute\<close> differs exactly there: on a host where \<^verbatim>\<open>new RegExp("")\<close> is
  the empty regular expression, which matches at the start of every string, a route with
  the empty pattern is selected for every path.
\<close>

lemma regexp_test_Empty: "regexp_test Empty s"
  by (auto simp: regexp_test_def list_ex_iff)

lemma matchRoute_plain_empty_pattern:
  "RegExp h [] = Inr Empty \<Longrightarrow> path r = PString [] \<Longrightarrow> matchRoute_plain h (r # rs) p = Inr (Some r)"
  by (simp add: string_match_def regexp_test_Empty)

text \<open>
  C1. Route matching returns the first entry whose pattern matches the path, where an
  entry whose pattern is the empty string matches only the empty path. The second copy of
  \<open>matchRoute\<close> does not: with the routes \<open>''\<close> and \<open>home\<close>, in this order, and the path \<open>home\<close>,
  the first entry whose pattern matches is \<open>home\<close> (the empty pattern does not match the
  path), and that is what the \<open>matchRoute\<close> of \<open>src/lib/router-component.ts\<close> returns; the second
  copy returns the entry with the empty pattern.
\<close>

theorem second_copy_selects_empty_pattern:
  "RegExp open_host [] = Inr Empty
   \<and> path route_root = PString []
   \<and> path route_home = PString ''home''
   \<and> pattern_matches open_host (path route_root) ''home'' = Inr False
   \<and> pattern_matches open_host (path route_home) ''home'' = Inr True
   \<and> matchRoute_plain open_host [route_root, route_home] ''home'' = Inr (Some route_root)
   \<and> matchRoute open_host [route_root, route_home] ''home'' = Inr (Some route_home)"
proof -
  have 1: "RegExp open_host [] = Inr Empty" by (simp add: open_host_def literal_RegExp_def)
  have 2: "path route_root = PString []" "path route_home = PString ''home''"
    by (simp_all add: route_root_def route_home_def)
  have 3: "pattern_matches open_host (path route_root) ''home'' = Inr False" by code_simp
  have 4: "pattern_matches open_host (path route_home) ''home'' = Inr True" by code_simp
  have 5: "matchRoute_plain open_host [route_root, route_home] ''home'' = Inr (Some route_root)"
    by code_simp
  have 6: "matchRoute open_host [route_root, route_home] ''home'' = Inr (Some route_home)"
    by code_simp
  show ?thesis using 1 2 3 4 5 6 by simp
qed

section \<open>Guards\<close>



section \<open>What one load changes\<close>

lemma matchRoute_None_iff:
  "matchRoute h rs p = Inr None \<longleftrightarrow> (\<forall>r\<in>set rs. pattern_matches h (path r) p = Inr False)"
proof (induction rs)
  case Nil
  show ?case by simp
next
  case (Cons r rs)
  show ?case
  proof (cases "pattern_matches h (path r) p")
    case (Inl e)
    then show ?thesis by (simp add: matchPath_pattern_matches)
  next
    case (Inr b)
    then show ?thesis using Cons.IH by (cases b) (simp_all add: matchPath_pattern_matches)
  qed
qed

lemma loadPath_unmatched:
  "matchRoute h (routes s) p = Inr None \<Longrightarrow> loadPath h p s = (Inl (NoRoutesMatches p), s)"
  "matchRoute h (routes s) p = Inl e \<Longrightarrow> loadPath h p s = (Inl e, s)"
  by (simp_all add: loadPath_def)

lemma loadPath_effect:
  assumes "loadPath h p s = (out, s')"
  shows "routes s' = routes s"
    and "currentRoute s' = currentRoute s \<or>
      (out = Inr True \<and> (\<exists>r page. matchRoute h (routes s) p = Inr (Some r) \<and> currentRoute s' = Some r
          \<and> redirectTo r = None \<and> component r \<noteq> Undefined
          \<and> component_page (component r) = Inr page \<and> is_node page
          \<and> childNodes s' = drop 1 (childNodes s) @ [page]
          \<and> AppendChild page \<in> set (drop (length (trace s)) (trace s'))))"
proof -
  have "routes s' = routes s \<and> (currentRoute s' = currentRoute s \<or>
      (out = Inr True \<and> (\<exists>r page. matchRoute h (routes s) p = Inr (Some r) \<and> currentRoute s' = Some r
          \<and> redirectTo r = None \<and> component r \<noteq> Undefined
          \<and> component_page (component r) = Inr page \<and> is_node page
          \<and> childNodes s' = drop 1 (childNodes s) @ [page]
          \<and> AppendChild page \<in> set (drop (length (trace s)) (trace s')))))"
  proof (cases "matchRoute h (routes s) p")
    case (Inl e)
    then show ?thesis using assms by (simp add: loadPath_unmatched)
  next
    case (Inr m)
    show ?thesis
    proof (cases m)
      case None
      then show ?thesis using Inr assms by (simp add: loadPath_unmatched)
    next
      case (Some r)
      with Inr have m: "matchRoute h (routes s) p = Inr (Some r)" by simp
      from m assms show ?thesis
      proof (cases rule: loadPath_cases)
        case (render page)
        then show ?thesis using m by (auto simp: add_events_def)
      qed (simp_all add: add_events_def)
    qed
  qed
  then show "routes s' = routes s"
    and "currentRoute s' = currentRoute s \<or>
      (out = Inr True \<and> (\<exists>r page. matchRoute h (routes s) p = Inr (Some r) \<and> currentRoute s' = Some r
          \<and> redirectTo r = None \<and> component r \<noteq> Undefined
          \<and> component_page (component r) = Inr page \<and> is_node page
          \<and> childNodes s' = drop 1 (childNodes s) @ [page]
          \<and> AppendChild page \<in> set (drop (length (trace s)) (trace s'))))"
    by blast+
qed

lemma loadPath_current_ok:
  assumes "current_ok s" shows "current_ok (snd (loadPath h p s))"
  using loadPath_effect(2) [of h p s "fst (loadPath h p s)" "snd (loadPath h p s)"] assms
  by (auto simp: current_ok_def)

lemma onPathChanged_snd: "snd (onPathChanged h s) = snd (loadPath h (currentPath h) s)"
  by (simp add: onPathChanged_def split: prod.splits sum.splits)

lemma setupRoutes_no_navigate: "setupRoutes h arg False s = (Inr (), s\<lparr>routes := installed arg\<rparr>)"
  by (cases arg) (simp_all add: setupRoutes_def clearRoutes_def installed_def)

lemma setupRoutes_navigate:
  "snd (setupRoutes h arg True s) = snd (loadPath h (currentPath h) (s\<lparr>routes := installed arg\<rparr>))"
  by (cases arg) (simp_all add: setupRoutes_def clearRoutes_def installed_def onPathChanged_snd)

text \<open>
  A second \<^verbatim>\<open>setup\<close> with the array of the first one leaves the router without routes.
\<close>

lemma setupRoutes_same_array:
  "routes (snd (setupRoutes h InstalledArray False (snd (setupRoutes h (NewArray rs) False s)))) = []"
  by (simp add: setupRoutes_no_navigate installed_def)

lemma reachable_current_ok: "reachable s \<Longrightarrow> current_ok s"
proof (induction rule: reachable.induct)
  case (created s)
  then show ?case by (simp add: current_ok_def)
next
  case (after_setup s h arg navigate)
  have "current_ok (s\<lparr>routes := installed arg\<rparr>)" using after_setup.IH by (simp add: current_ok_def)
  then show ?case
    by (cases navigate) (simp_all add: setupRoutes_no_navigate setupRoutes_navigate loadPath_current_ok)
next
  case (after_path_change s h)
  then show ?case by (simp add: onPathChanged_snd loadPath_current_ok)
qed

lemma reachable_app_router: "reachable app_router"
proof -
  have "reachable new_router" by (rule reachable.created) (simp_all add: new_router_def)
  then have "reachable (snd (setupRoutes open_host (NewArray app_routes) False new_router))"
    by (rule reachable.after_setup)
  then show ?thesis by (simp add: setupRoutes_no_navigate installed_def app_router_def)
qed

section \<open>Redirects\<close>

text \<open>
  C4. For every matched route whose redirect target is set and whose guards all let pass,
  in every state the router can reach, \<open>loadPath\<close> returns false and does exactly this: it
  calls the guards, dispatches NavigationStart and calls \<^verbatim>\<open>replaceState\<close> with the target.
  Nothing else is added to the trace (no \<open>PushState\<close>, no \<open>Constructed\<close>, no \<open>AppendChild\<close>),
  and the children and the current route stay as they were: no component is rendered.
\<close>

theorem redirect_replaces_history_entry:
  assumes "reachable s"
    and "matchRoute h (routes s) p = Inr (Some r)"
    and "redirectTo r = Some target"
    and "\<forall>g\<in>set (the_guards r). guard_call h g = Inr True"
  shows "loadPath h p s =
    (Inr False, add_events (map GuardCalled (the_guards r)
        @ [RouterDispatch NavigationStart r, ReplaceState target]) s)"
proof -
  have nav: "currentRoute s \<noteq> Some r"
    using reachable_current_ok [OF assms(1)] assms(3) by (auto simp: current_ok_def)
  obtain out s' where l: "loadPath h p s = (out, s')" by (cases "loadPath h p s")
  from assms(2) l show ?thesis
  proof (cases rule: loadPath_cases)
    case (redirect target')
    then show ?thesis using l assms(3) by simp
  qed (use assms(3,4) nav in \<open>auto simp: passes_iff\<close>)
qed

theorem redirect_replaces_history_entry_witness:
  "reachable app_router
   \<and> matchRoute open_host (routes app_router) [] = Inr (Some route_root)
   \<and> redirectTo route_root = Some ''home''
   \<and> the_guards route_root = [Guard 0]
   \<and> guard_call open_host (Guard 0) = Inr True
   \<and> loadPath open_host [] app_router =
       (Inr False, add_events [GuardCalled (Guard 0), RouterDispatch NavigationStart route_root,
          ReplaceState ''home''] app_router)"
proof -
  have m: "matchRoute open_host (routes app_router) [] = Inr (Some route_root)" by code_simp
  have t: "redirectTo route_root = Some ''home''" by (simp add: route_root_def)
  have gs: "the_guards route_root = [Guard 0]" by (simp add: the_guards_def route_root_def)
  have c: "guard_call open_host (Guard 0) = Inr True" by (simp add: open_host_def)
  have g: "\<forall>g\<in>set (the_guards route_root). guard_call open_host g = Inr True"
    by (simp add: gs c)
  show ?thesis
    using redirect_replaces_history_entry [OF reachable_app_router m t g] reachable_app_router m t gs c
    by simp
qed

section \<open>No matching route\<close>

text \<open>
  C6. For every path \<open>p\<close> that no entry of the route list matches, \<open>loadPath\<close> throws the
  error "No routes matches the path"; nothing is selected instead and the router is left
  as it was.
\<close>

theorem no_match_throws:
  assumes "\<forall>r\<in>set (routes s). pattern_matches h (path r) p = Inr False"
  shows "loadPath h p s = (Inl (NoRoutesMatches p), s)"
  using assms by (simp add: loadPath_unmatched(1) matchRoute_None_iff)

theorem no_match_throws_witness:
  "routes app_router = app_routes
   \<and> list_all (\<lambda>r. pattern_matches open_host (path r) ''about'' = Inr False) app_routes
   \<and> loadPath open_host ''about'' app_router = (Inl (NoRoutesMatches ''about''), app_router)"
proof -
  have r: "routes app_router = app_routes" by (simp add: app_router_def)
  have a: "list_all (\<lambda>r. pattern_matches open_host (path r) ''about'' = Inr False) app_routes"
    by code_simp
  then have "\<forall>r\<in>set (routes app_router). pattern_matches open_host (path r) ''about'' = Inr False"
    by (simp add: r list_all_iff)
  from no_match_throws [OF this] r a show ?thesis by simp
qed

section \<open>The current route\<close>

text \<open>
  C10. The current route is updated only after a component has been resolved and
  attached. A load that does not return true (a guard refused, the route redirects, the
  route is already current, or an error was thrown) leaves \<open>currentRoute\<close> as it was; and
  when \<open>currentRoute\<close> changes, the load returned true, the new current route is the
  matched one, its component resolved to a page, and that page was appended to the router.
\<close>

theorem current_route_changes_only_on_render:
  assumes "loadPath h p s = (out, s')"
  shows "(out \<noteq> Inr True \<longrightarrow> currentRoute s' = currentRoute s)
    \<and> (currentRoute s' \<noteq> currentRoute s \<longrightarrow>
         out = Inr True
         \<and> (\<exists>r page. matchRoute h (routes s) p = Inr (Some r) \<and> currentRoute s' = Some r
              \<and> component_page (component r) = Inr page \<and> is_node page
              \<and> childNodes s' = drop 1 (childNodes s) @ [page]
              \<and> AppendChild page \<in> set (drop (length (trace s)) (trace s'))))"
  using loadPath_effect(2) [OF assms] by blast


theorem current_route_changes_only_on_render_witness:
  "loadPath open_host ''offline'' app_router =
     (Inl (UserError 7), add_events [RouterDispatch NavigationStart route_offline,
        RouterDispatch NavigationError route_offline] app_router)
   \<and> currentRoute (snd (loadPath open_host ''offline'' app_router)) = currentRoute app_router
   \<and> currentRoute app_router = None
   \<and> fst (loadPath open_host ''lazy'' app_router) = Inr True
   \<and> currentRoute (snd (loadPath open_host ''lazy'' app_router)) = Some route_lazy"
proof -
  have a: "loadPath open_host ''offline'' app_router =
     (Inl (UserError 7), add_events [RouterDispatch NavigationStart route_offline,
        RouterDispatch NavigationError route_offline] app_router)"
    by code_simp
  have b: "fst (loadPath open_host ''lazy'' app_router) = Inr True" by code_simp
  have c: "currentRoute (snd (loadPath open_host ''lazy'' app_router)) = Some route_lazy" by code_simp
  have d: "currentRoute app_router = None" by (simp add: app_router_def new_router_def)
  show ?thesis
    using current_route_changes_only_on_render [OF a] a b c d by simp
qed

section \<open>The DidChangeRoute notification\<close>

text \<open>
  C5, as stated: DidChangeRoute is dispatched after every load in which all guards of the
  matched route returned true. It is not: a load that redirects returns before the
  dispatch, and so does a load in which component resolution throws. Both on the small
  application: the empty path redirects, and the component of \<open>offline\<close> is a rejected
  promise.
\<close>

theorem did_change_route_after_every_passed_load_counterexample:
  "matchRoute open_host (routes app_router) [] = Inr (Some route_root)
   \<and> guards route_root = Some [Guard 0]
   \<and> guard_call open_host (Guard 0) = Inr True
   \<and> loadPath open_host [] app_router =
       (Inr False, add_events [GuardCalled (Guard 0), RouterDispatch NavigationStart route_root,
          ReplaceState ''home''] app_router)
   \<and> DidChangeRoute route_root \<notin> set (trace (snd (loadPath open_host [] app_router)))
   \<and> matchRoute open_host (routes app_router) ''offline'' = Inr (Some route_offline)
   \<and> guards route_offline = None
   \<and> loadPath open_host ''offline'' app_router =
       (Inl (UserError 7), add_events [RouterDispatch NavigationStart route_offline,
          RouterDispatch NavigationError route_offline] app_router)
   \<and> DidChangeRoute route_offline \<notin> set (trace (snd (loadPath open_host ''offline'' app_router)))"
proof -
  have 1: "matchRoute open_host (routes app_router) [] = Inr (Some route_root)" by code_simp
  have 2: "guards route_root = Some [Guard 0]" by (simp add: route_root_def)
  have 3: "guard_call open_host (Guard 0) = Inr True" by (simp add: open_host_def)
  have 4: "loadPath open_host [] app_router =
       (Inr False, add_events [GuardCalled (Guard 0), RouterDispatch NavigationStart route_root,
          ReplaceState ''home''] app_router)" by code_simp
  have 5: "matchRoute open_host (routes app_router) ''offline'' = Inr (Some route_offline)" by code_simp
  have 6: "guards route_offline = None" by (simp add: route_offline_def)
  have 7: "loadPath open_host ''offline'' app_router =
       (Inl (UserError 7), add_events [RouterDispatch NavigationStart route_offline,
          RouterDispatch NavigationError route_offline] app_router)" by code_simp
  have t: "trace app_router = []" by (simp add: app_router_def new_router_def)
  show ?thesis unfolding 4 7 using 1 2 3 5 6 by (simp add: add_events_def t)
qed

text \<open>
  C5, amended: DidChangeRoute for the matched route is dispatched exactly when the load
  returns without throwing, all guards of the route returned true, and the load did not
  redirect (the route is the current one, or it has no redirect target). It is never
  dispatched when some guard that was called returned false.
\<close>

theorem did_change_route_dispatch:
  assumes "matchRoute h (routes s) p = Inr (Some r)"
    and "loadPath h p s = (out, s')"
  shows "\<exists>evs. trace s' = trace s @ evs
      \<and> (DidChangeRoute r \<in> set evs \<longleftrightarrow>
            (\<exists>b. out = Inr b) \<and> (\<forall>g\<in>set (the_guards r). guard_call h g = Inr True)
            \<and> (currentRoute s = Some r \<or> redirectTo r = None))
      \<and> (\<forall>g. GuardCalled g \<in> set evs \<and> guard_call h g = Inr False \<longrightarrow> DidChangeRoute r \<notin> set evs)"
  using assms
proof (cases rule: loadPath_cases)
  case misconfigured
  then show ?thesis by (intro exI [of _ "[]"]) simp
next
  case (guard_throws pre g post e)
  show ?thesis
    by (rule exI [of _ "map GuardCalled (pre @ [g]) @ [RouterDispatch NavigationError r]"])
      (use guard_throws in \<open>auto simp: add_events_fields\<close>)
next
  case (guard_refuses pre g post)
  show ?thesis
    by (rule exI [of _ "map GuardCalled (pre @ [g]) @ [RouterDispatch NavigationCancel r]"])
      (use guard_refuses in \<open>auto simp: add_events_fields\<close>)
next
  case same
  show ?thesis
    by (rule exI [of _ "map GuardCalled (the_guards r) @ scroll_events r @ [DidChangeRoute r]"])
      (use same in \<open>auto simp: add_events_fields passes_iff\<close>)
next
  case (redirect target)
  show ?thesis
    by (rule exI [of _ "map GuardCalled (the_guards r)
             @ [RouterDispatch NavigationStart r, ReplaceState target]"])
      (use redirect in \<open>auto simp: add_events_fields passes_iff\<close>)
next
  case (resolve_fails e)
  show ?thesis
    by (rule exI [of _ "map GuardCalled (the_guards r)
             @ RouterDispatch NavigationStart r # factory_events (component r)
             @ [RouterDispatch NavigationError r]"])
      (use resolve_fails in \<open>auto simp: add_events_fields passes_iff\<close>)
next
  case (not_node page)
  show ?thesis
    by (rule exI [of _ "map GuardCalled (the_guards r)
             @ RouterDispatch NavigationStart r # factory_events (component r)
             @ [Constructed page, SetParentRouter page] @ removal_events s
             @ [RouterDispatch NavigationError r]"])
      (use not_node in \<open>auto simp: add_events_fields passes_iff\<close>)
next
  case (render page)
  show ?thesis
    by (rule exI [of _ "map GuardCalled (the_guards r)
             @ RouterDispatch NavigationStart r # factory_events (component r)
             @ [Constructed page, SetParentRouter page] @ removal_events s @ [AppendChild page]
             @ scroll_events r @ [DidChangeRoute r, RouterDispatch NavigationEnd r]"])
      (use render in \<open>auto simp: add_events_fields passes_iff\<close>)
qed

theorem did_change_route_dispatch_witness:
  "matchRoute open_host (routes app_router) ''lazy'' = Inr (Some route_lazy)
   \<and> fst (loadPath open_host ''lazy'' app_router) = Inr True
   \<and> the_guards route_lazy = [Guard 0]
   \<and> guard_call open_host (Guard 0) = Inr True
   \<and> redirectTo route_lazy = None
   \<and> DidChangeRoute route_lazy \<in> set (trace (snd (loadPath open_host ''lazy'' app_router)))"
proof -
  have m: "matchRoute open_host (routes app_router) ''lazy'' = Inr (Some route_lazy)" by code_simp
  have b: "fst (loadPath open_host ''lazy'' app_router) = Inr True" by code_simp
  have l: "loadPath open_host ''lazy'' app_router =
    (fst (loadPath open_host ''lazy'' app_router), snd (loadPath open_host ''lazy'' app_router))"
    by simp
  have gs: "the_guards route_lazy = [Guard 0]" by (simp add: the_guards_def route_lazy_def)
  have c: "guard_call open_host (Guard 0) = Inr True" by (simp add: open_host_def)
  have n: "redirectTo route_lazy = None" by (simp add: route_lazy_def)
  have t: "trace app_router = []" by (simp add: app_router_def new_router_def)
  from did_change_route_dispatch [OF m l] obtain evs where
    e: "trace (snd (loadPath open_host ''lazy'' app_router)) = trace app_router @ evs"
    and d: "DidChangeRoute route_lazy \<in> set evs \<longleftrightarrow>
            (\<exists>b. fst (loadPath open_host ''lazy'' app_router) = Inr b)
            \<and> (\<forall>g\<in>set (the_guards route_lazy). guard_call open_host g = Inr True)
            \<and> (currentRoute app_router = Some route_lazy \<or> redirectTo route_lazy = None)"
    by (elim exE conjE) (rule that)
  from d have "DidChangeRoute route_lazy \<in> set evs" by (auto simp: b gs c n)
  then have "DidChangeRoute route_lazy \<in> set (trace (snd (loadPath open_host ''lazy'' app_router)))"
    using e t by simp
  then show ?thesis using m b gs c n by simp
qed

section \<open>Errors inside the try block\<close>

lemma loadPath_try_throws:
  assumes "thrown_in_try h r s e"
  shows "fst (loadPath_try h r s) = Inl e"
proof (cases "dropWhile (passes h) (the_guards r)")
  case (Cons g post)
  then have d: "the_guards r = takeWhile (passes h) (the_guards r) @ g # post" and n: "\<not> passes h g"
    by (simp_all add: dropWhile_eq_Cons_conv)
  have t: "\<forall>x\<in>set (takeWhile (passes h) (the_guards r)). passes h x"
    by (auto dest: set_takeWhileD)
  have "guard_call h g = Inl e" using assms Cons by (simp add: thrown_in_try_def)
  with loadPath_try_guard_stops [OF d t n, of s] show ?thesis by simp
next
  case Nil
  then have p: "\<forall>x\<in>set (the_guards r). passes h x" by simp
  from assms Nil have a: "currentRoute s \<noteq> Some r" "redirectTo r = None"
    and c: "case component_page (component r) of
              Inl e' \<Rightarrow> e' = e | Inr page \<Rightarrow> \<not> is_node page \<and> e = TypeError"
    by (simp_all add: thrown_in_try_def)
  show ?thesis
  proof (cases "component_page (component r)")
    case (Inl e')
    then show ?thesis using a(1) c
      by (simp add: Let_def loadPath_try_passed [OF p] navigate_to_resolve_fails [OF a(2) Inl])
  next
    case (Inr page)
    then have "\<not> is_node page" "e = TypeError" using c by simp_all
    then show ?thesis using a(1)
      by (simp add: Let_def loadPath_try_passed [OF p] navigate_to_not_node [OF a(2) Inr])
  qed
qed

lemma thrown_in_try_guard:
  assumes "the_guards r = pre @ g # post" "\<forall>x\<in>set pre. passes h x" "guard_call h g = Inl e"
  shows "thrown_in_try h r s e' \<longleftrightarrow> e' = e"
proof -
  have "\<not> passes h g" using assms(3) by (simp add: passes_def)
  then have "dropWhile (passes h) (the_guards r) = g # post"
    using assms(1,2) by simp
  then show ?thesis using assms(3) by (auto simp: thrown_in_try_def)
qed

lemma thrown_in_try_passed:
  assumes "\<forall>x\<in>set (the_guards r). passes h x"
  shows "thrown_in_try h r s e \<longleftrightarrow>
     currentRoute s \<noteq> Some r \<and> redirectTo r = None
     \<and> (case component_page (component r) of
           Inl e' \<Rightarrow> e' = e
         | Inr page \<Rightarrow> \<not> is_node page \<and> e = TypeError)"
proof -
  have d: "dropWhile (passes h) (the_guards r) = []" using assms by simp
  show ?thesis unfolding thrown_in_try_def d by simp
qed

text \<open>
  C8. For every load of a path whose matched route passes the configuration check,
  \<open>loadPath\<close> throws \<open>e\<close> exactly when \<open>e\<close> was thrown inside the \<^verbatim>\<open>try\<close> block (by a guard, by
  component resolution or by rendering): the error is re-thrown as it is and never
  swallowed. On that way out a NavigationError event for the matched route is dispatched,
  once, as the last thing the load does.
\<close>

theorem error_reported_and_rethrown:
  assumes "matchRoute h (routes s) p = Inr (Some r)"
    and "\<not> (component r = Undefined \<and> redirectTo r = None)"
  shows "(fst (loadPath h p s) = Inl e \<longleftrightarrow> thrown_in_try h r s e)
    \<and> (thrown_in_try h r s e \<longrightarrow>
         (\<exists>evs. trace (snd (loadPath h p s)) = trace s @ evs @ [RouterDispatch NavigationError r]
            \<and> RouterDispatch NavigationError r \<notin> set evs))"
proof -
  obtain out s' where l: "loadPath h p s = (out, s')" by (cases "loadPath h p s")
  have fwd: "thrown_in_try h r s e \<Longrightarrow> out = Inl e"
    using loadPath_try_throws [of h r s e] l assms(2)
    by (cases "loadPath_try h r s") (auto simp: loadPath_matched [OF assms(1)])
  have "(out = Inl e \<longrightarrow> thrown_in_try h r s e)
    \<and> (out = Inl e \<longrightarrow> (\<exists>evs. trace s' = trace s @ evs @ [RouterDispatch NavigationError r]
            \<and> RouterDispatch NavigationError r \<notin> set evs))"
    using assms(1) l
  proof (cases rule: loadPath_cases)
    case misconfigured
    then show ?thesis using assms(2) by simp
  next
    case (guard_throws pre g post e')
    have "thrown_in_try h r s e'"
      using thrown_in_try_guard [OF guard_throws(2,3,4)] by simp
    moreover have "\<exists>evs. trace s' = trace s @ evs @ [RouterDispatch NavigationError r]
            \<and> RouterDispatch NavigationError r \<notin> set evs"
      by (rule exI [of _ "map GuardCalled (pre @ [g])"])
        (use guard_throws in \<open>auto simp: add_events_fields\<close>)
    ultimately show ?thesis using guard_throws(5) by auto
  next
    case (resolve_fails e')
    have "thrown_in_try h r s e'"
      using resolve_fails by (simp add: thrown_in_try_passed)
    moreover have "\<exists>evs. trace s' = trace s @ evs @ [RouterDispatch NavigationError r]
            \<and> RouterDispatch NavigationError r \<notin> set evs"
      by (rule exI [of _ "map GuardCalled (the_guards r)
             @ RouterDispatch NavigationStart r # factory_events (component r)"])
        (use resolve_fails in \<open>auto simp: add_events_fields\<close>)
    ultimately show ?thesis using resolve_fails(6) by auto
  next
    case (not_node page)
    have "thrown_in_try h r s TypeError"
      using not_node by (simp add: thrown_in_try_passed)
    moreover have "\<exists>evs. trace s' = trace s @ evs @ [RouterDispatch NavigationError r]
            \<and> RouterDispatch NavigationError r \<notin> set evs"
      by (rule exI [of _ "map GuardCalled (the_guards r)
             @ RouterDispatch NavigationStart r # factory_events (component r)
             @ [Constructed page, SetParentRouter page] @ removal_events s"])
        (use not_node in \<open>auto simp: add_events_fields\<close>)
    ultimately show ?thesis using not_node(7) by auto
  qed simp_all
  with fwd l show ?thesis by auto
qed


theorem error_reported_and_rethrown_witness:
  "matchRoute open_host (routes app_router) ''offline'' = Inr (Some route_offline)
   \<and> component route_offline = Promise (Inl (UserError 7))
   \<and> thrown_in_try open_host route_offline app_router (UserError 7)
   \<and> loadPath open_host ''offline'' app_router =
       (Inl (UserError 7), add_events [RouterDispatch NavigationStart route_offline,
          RouterDispatch NavigationError route_offline] app_router)"
proof -
  have m: "matchRoute open_host (routes app_router) ''offline'' = Inr (Some route_offline)"
    by code_simp
  have c: "component route_offline = Promise (Inl (UserError 7))" by (simp add: route_offline_def)
  have ok: "\<not> (component route_offline = Undefined \<and> redirectTo route_offline = None)"
    by (simp add: c)
  have l: "loadPath open_host ''offline'' app_router =
       (Inl (UserError 7), add_events [RouterDispatch NavigationStart route_offline,
          RouterDispatch NavigationError route_offline] app_router)"
    by code_simp
  have "thrown_in_try open_host route_offline app_router (UserError 7)"
    using error_reported_and_rethrown [OF m ok, of "UserError 7"] l by simp
  then show ?thesis using m c l by simp
qed

section \<open>Component resolution\<close>

lemma factory_result_differs: "Function (Inr c) k \<noteq> c"
proof
  assume "Function (Inr c) k = c"
  then have "size (Function (Inr c) k) = size c" by simp
  then show False by simp
qed

lemma is_factory_Function: "is_factory (Function f k)"
  by (simp add: is_factory_def isFunction_def isClass_def)

text \<open>
  C7. For every matched route that leads to a render (a new route, no redirect target,
  all guards let pass): the component may be a value \<open>c\<close> that is not a factory, which is
  used as it is, or a non-class function that returns \<open>c\<close>. In both cases \<open>c\<close> is awaited
  (it may be a promise) and the page is constructed from what it resolved to; the only
  difference is the call of the factory, which happens inside \<open>loadPath\<close> after
  NavigationStart and before the page is constructed. Registering routes without
  navigating calls nothing: the trace stays as it is.
\<close>

theorem component_direct_or_deferred:
  assumes "matchRoute h (routes s) p = Inr (Some r)"
    and "currentRoute s \<noteq> Some r"
    and "redirectTo r = None"
    and "\<forall>g\<in>set (the_guards r). guard_call h g = Inr True"
    and "(component r = c \<and> \<not> is_factory c) \<or> (\<exists>k. component r = Function (Inr c) k)"
    and "await c = Inr m"
    and "new_page m = Inr page"
    and "is_node page"
  shows "loadPath h p s =
      (Inr True,
       (add_events (map GuardCalled (the_guards r) @ [RouterDispatch NavigationStart r]
          @ (if component r = c then [] else [FactoryCalled])
          @ [Constructed page, SetParentRouter page] @ removal_events s @ [AppendChild page]
          @ scroll_events r @ [DidChangeRoute r, RouterDispatch NavigationEnd r]) s)
         \<lparr>childNodes := drop 1 (childNodes s) @ [page], currentRoute := Some r\<rparr>)
    \<and> trace (snd (setupRoutes h arg False s)) = trace s"
proof -
  have d: "deferred (component r) = Inr c"
    using assms(5) by (auto simp: deferred_def is_factory_Function)
  have f: "factory_events (component r) = (if component r = c then [] else [FactoryCalled])"
    using assms(5)
  proof (elim disjE conjE exE)
    assume "component r = c" "\<not> is_factory c"
    then show ?thesis by (simp add: factory_events_def)
  next
    fix k assume k: "component r = Function (Inr c) k"
    then have "component r \<noteq> c" using factory_result_differs [of c k] by simp
    then show ?thesis using k by (simp add: factory_events_def is_factory_Function)
  qed
  have cp: "component_page (component r) = Inr page"
    using d assms(6,7) by (simp add: component_page_def)
  obtain out s' where l: "loadPath h p s = (out, s')" by (cases "loadPath h p s")
  from assms(1) l have "loadPath h p s =
      (Inr True,
       (add_events (map GuardCalled (the_guards r) @ [RouterDispatch NavigationStart r]
          @ (if component r = c then [] else [FactoryCalled])
          @ [Constructed page, SetParentRouter page] @ removal_events s @ [AppendChild page]
          @ scroll_events r @ [DidChangeRoute r, RouterDispatch NavigationEnd r]) s)
         \<lparr>childNodes := drop 1 (childNodes s) @ [page], currentRoute := Some r\<rparr>)"
  proof (cases rule: loadPath_cases)
    case misconfigured
    then show ?thesis using cp by (simp add: component_page_def deferred_def is_factory_def
          isFunction_def isClass_def new_page_def)
  next
    case (render page')
    then show ?thesis using l cp f by simp
  qed (use assms(2,3,4,8) cp in \<open>auto simp: passes_iff\<close>)
  then show ?thesis by (simp add: setupRoutes_no_navigate)
qed

theorem component_direct_or_deferred_witness:
  "matchRoute open_host (routes app_router) ''lazy'' = Inr (Some route_lazy)
   \<and> currentRoute app_router = None
   \<and> redirectTo route_lazy = None
   \<and> the_guards route_lazy = [Guard 0]
   \<and> guard_call open_host (Guard 0) = Inr True
   \<and> component route_lazy =
        Function (Inr (Promise (Inr (Module (Class (Inr (Obj True 2))))))) (Inl TypeError)
   \<and> await (Promise (Inr (Module (Class (Inr (Obj True 2)))))) = Inr (Module (Class (Inr (Obj True 2))))
   \<and> new_page (Module (Class (Inr (Obj True 2)))) = Inr (Obj True 2)
   \<and> loadPath open_host ''lazy'' app_router =
       (Inr True,
        (add_events [GuardCalled (Guard 0), RouterDispatch NavigationStart route_lazy, FactoryCalled,
           Constructed (Obj True 2), SetParentRouter (Obj True 2), AppendChild (Obj True 2),
           DidChangeRoute route_lazy, RouterDispatch NavigationEnd route_lazy] app_router)
          \<lparr>childNodes := [Obj True 2], currentRoute := Some route_lazy\<rparr>)"
proof -
  have m: "matchRoute open_host (routes app_router) ''lazy'' = Inr (Some route_lazy)" by code_simp
  have n: "currentRoute app_router = None" by (simp add: app_router_def new_router_def)
  then have n': "currentRoute app_router \<noteq> Some route_lazy" by simp
  have t: "redirectTo route_lazy = None" by (simp add: route_lazy_def)
  have gs: "the_guards route_lazy = [Guard 0]" by (simp add: the_guards_def route_lazy_def)
  have c: "guard_call open_host (Guard 0) = Inr True" by (simp add: open_host_def)
  have g: "\<forall>g\<in>set (the_guards route_lazy). guard_call open_host g = Inr True" by (simp add: gs c)
  have k: "component route_lazy =
        Function (Inr (Promise (Inr (Module (Class (Inr (Obj True 2))))))) (Inl TypeError)"
    by (simp add: route_lazy_def)
  then have k': "(component route_lazy = Promise (Inr (Module (Class (Inr (Obj True 2)))))
        \<and> \<not> is_factory (Promise (Inr (Module (Class (Inr (Obj True 2)))))))
      \<or> (\<exists>k. component route_lazy = Function (Inr (Promise (Inr (Module (Class (Inr (Obj True 2))))))) k)"
    by simp
  have a: "await (Promise (Inr (Module (Class (Inr (Obj True 2)))))) = Inr (Module (Class (Inr (Obj True 2))))"
    by simp
  have w: "new_page (Module (Class (Inr (Obj True 2)))) = Inr (Obj True 2)"
    by (simp add: new_page_def construct_def)
  have e: "removal_events app_router = []" "scroll_events route_lazy = []" "childNodes app_router = []"
    by (simp_all add: removal_events_def scroll_events_def app_router_def new_router_def route_lazy_def)
  show ?thesis
    using component_direct_or_deferred [OF m n' t g k' a w, of "NewArray app_routes"] m n t gs c k a w e
    by simp
qed

section \<open>When loadPath returns true\<close>

text \<open>
  C9, as stated: if the matched route is the current route then \<open>loadPath\<close> returns false,
  and \<open>loadPath\<close> returns true exactly when the matched route differs from the current one,
  all guards pass and no redirect target is set. Neither holds when something throws: the
  guards are called also for the current route, and a guard that throws makes \<open>loadPath\<close>
  throw (first four lines: \<open>locked\<close> is loaded on the open host and loaded again on the
  strict host); and a new route without guards and redirect whose component is a rejected
  promise makes \<open>loadPath\<close> throw instead of returning true (last five lines).
\<close>

theorem returns_true_exactly_on_render_counterexample:
  "currentRoute (snd (loadPath open_host ''locked'' app_router)) = Some route_locked
   \<and> matchRoute strict_host (routes (snd (loadPath open_host ''locked'' app_router))) ''locked''
       = Inr (Some route_locked)
   \<and> fst (loadPath strict_host ''locked'' (snd (loadPath open_host ''locked'' app_router)))
       = Inl (UserError 1)
   \<and> matchRoute open_host (routes app_router) ''offline'' = Inr (Some route_offline)
   \<and> currentRoute app_router = None
   \<and> guards route_offline = None
   \<and> redirectTo route_offline = None
   \<and> fst (loadPath open_host ''offline'' app_router) = Inl (UserError 7)"
proof -
  have 1: "currentRoute (snd (loadPath open_host ''locked'' app_router)) = Some route_locked"
    by code_simp
  have 2: "matchRoute strict_host (routes (snd (loadPath open_host ''locked'' app_router))) ''locked''
       = Inr (Some route_locked)"
    by code_simp
  have 3: "fst (loadPath strict_host ''locked'' (snd (loadPath open_host ''locked'' app_router)))
       = Inl (UserError 1)"
    by code_simp
  have 4: "matchRoute open_host (routes app_router) ''offline'' = Inr (Some route_offline)"
    by code_simp
  have 5: "currentRoute app_router = None" by (simp add: app_router_def new_router_def)
  have 6: "guards route_offline = None" "redirectTo route_offline = None"
    by (simp_all add: route_offline_def)
  have 7: "fst (loadPath open_host ''offline'' app_router) = Inl (UserError 7)" by code_simp
  show ?thesis using 1 2 3 4 5 6 7 by simp
qed

text \<open>
  C9, amended: in every state the router can reach, if the matched route is the current
  route then \<open>loadPath\<close> renders nothing (children and current route stay, nothing is
  constructed or appended), dispatches no NavigationStart and no NavigationEnd, does not
  return true, and returns false unless a guard throws. \<open>loadPath\<close> returns true exactly
  when the matched route differs from the current route, all guards return true, no
  redirect target is set, and the component resolves to a DOM node.
\<close>

theorem same_route_no_render_and_true_exactly_on_render:
  assumes "reachable s"
    and "matchRoute h (routes s) p = Inr (Some r)"
    and "loadPath h p s = (out, s')"
  shows "(currentRoute s = Some r \<longrightarrow>
            out \<noteq> Inr True \<and> childNodes s' = childNodes s \<and> currentRoute s' = currentRoute s
            \<and> (\<exists>evs. trace s' = trace s @ evs
                  \<and> (\<forall>r'. RouterDispatch NavigationStart r' \<notin> set evs
                          \<and> RouterDispatch NavigationEnd r' \<notin> set evs)
                  \<and> (\<forall>page. Constructed page \<notin> set evs \<and> AppendChild page \<notin> set evs))
            \<and> ((\<forall>g\<in>set (the_guards r). \<forall>e. guard_call h g \<noteq> Inl e) \<longrightarrow> out = Inr False))
    \<and> (out = Inr True \<longleftrightarrow>
         currentRoute s \<noteq> Some r \<and> (\<forall>g\<in>set (the_guards r). guard_call h g = Inr True)
         \<and> redirectTo r = None
         \<and> (\<exists>page. component_page (component r) = Inr page \<and> is_node page))"
proof -
  have ok: "currentRoute s = Some r \<Longrightarrow> component r \<noteq> Undefined"
    using reachable_current_ok [OF assms(1)] by (simp add: current_ok_def)
  from assms(2,3) show ?thesis
  proof (cases rule: loadPath_cases)
    case misconfigured
    then show ?thesis using ok
      by (auto simp: component_page_def deferred_def is_factory_def isFunction_def isClass_def
          new_page_def)
  next
    case (guard_throws pre g post e)
    have "\<exists>evs. trace s' = trace s @ evs
        \<and> (\<forall>r'. RouterDispatch NavigationStart r' \<notin> set evs
                \<and> RouterDispatch NavigationEnd r' \<notin> set evs)
        \<and> (\<forall>page. Constructed page \<notin> set evs \<and> AppendChild page \<notin> set evs)"
      by (rule exI [of _ "map GuardCalled (pre @ [g]) @ [RouterDispatch NavigationError r]"])
        (use guard_throws in \<open>auto simp: add_events_fields\<close>)
    then show ?thesis using guard_throws by (auto simp: add_events_fields)
  next
    case (guard_refuses pre g post)
    have "\<exists>evs. trace s' = trace s @ evs
        \<and> (\<forall>r'. RouterDispatch NavigationStart r' \<notin> set evs
                \<and> RouterDispatch NavigationEnd r' \<notin> set evs)
        \<and> (\<forall>page. Constructed page \<notin> set evs \<and> AppendChild page \<notin> set evs)"
      by (rule exI [of _ "map GuardCalled (pre @ [g]) @ [RouterDispatch NavigationCancel r]"])
        (use guard_refuses in \<open>auto simp: add_events_fields\<close>)
    then show ?thesis using guard_refuses by (auto simp: add_events_fields)
  next
    case same
    have "\<exists>evs. trace s' = trace s @ evs
        \<and> (\<forall>r'. RouterDispatch NavigationStart r' \<notin> set evs
                \<and> RouterDispatch NavigationEnd r' \<notin> set evs)
        \<and> (\<forall>page. Constructed page \<notin> set evs \<and> AppendChild page \<notin> set evs)"
      by (rule exI [of _ "map GuardCalled (the_guards r) @ scroll_events r @ [DidChangeRoute r]"])
        (use same in \<open>auto simp: add_events_fields\<close>)
    then show ?thesis using same by (auto simp: add_events_fields)
  next
    case (redirect target)
    then show ?thesis by auto
  next
    case (resolve_fails e)
    then show ?thesis by auto
  next
    case (not_node page)
    then show ?thesis by auto
  next
    case (render page)
    then show ?thesis by (auto simp: passes_iff)
  qed
qed

theorem same_route_no_render_and_true_exactly_on_render_witness:
  "reachable (snd (loadPath open_host ''home'' app_router))
   \<and> currentRoute (snd (loadPath open_host ''home'' app_router)) = Some route_home
   \<and> matchRoute open_host (routes (snd (loadPath open_host ''home'' app_router))) ''home''
       = Inr (Some route_home)
   \<and> the_guards route_home = []
   \<and> fst (loadPath open_host ''home'' (snd (loadPath open_host ''home'' app_router))) = Inr False
   \<and> fst (loadPath open_host ''home'' app_router) = Inr True"
proof -
  let ?s = "snd (loadPath open_host ''home'' app_router)"
  have "reachable (snd (onPathChanged open_host app_router))"
    by (rule reachable.after_path_change) (rule reachable_app_router)
  then have r: "reachable ?s" by (simp add: onPathChanged_snd open_host_def)
  have c: "currentRoute ?s = Some route_home" by code_simp
  have m: "matchRoute open_host (routes ?s) ''home'' = Inr (Some route_home)" by code_simp
  have g: "the_guards route_home = []" by (simp add: the_guards_def route_home_def)
  have l: "loadPath open_host ''home'' ?s =
     (fst (loadPath open_host ''home'' ?s), snd (loadPath open_host ''home'' ?s))" by simp
  have t: "fst (loadPath open_host ''home'' app_router) = Inr True" by code_simp
  have "fst (loadPath open_host ''home'' ?s) = Inr False"
    using same_route_no_render_and_true_exactly_on_render [OF r m l] c g by simp
  then show ?thesis using r c m g t by simp
qed

section \<open>The configuration check\<close>

text \<open>
  C2. A matched route with both a component and a redirect target set raises no
  configuration error: on the small application, loading \<open>both\<close> dispatches
  NavigationStart, replaces the history state by the redirect target and returns false.
\<close>

theorem both_set_is_not_rejected:
  "matchRoute open_host (routes app_router) ''both'' = Inr (Some route_both)
   \<and> component route_both = Class (Inr (Obj True 5))
   \<and> redirectTo route_both = Some ''home''
   \<and> loadPath open_host ''both'' app_router =
       (Inr False, add_events [RouterDispatch NavigationStart route_both, ReplaceState ''home'']
          app_router)"
proof -
  have m: "matchRoute open_host (routes app_router) ''both'' = Inr (Some route_both)" by code_simp
  have l: "loadPath open_host ''both'' app_router =
       (Inr False, add_events [RouterDispatch NavigationStart route_both, ReplaceState ''home'']
          app_router)" by code_simp
  show ?thesis using m l by (simp add: route_both_def)
qed

text \<open>
  The condition of the check holds only when neither is set; then the error is raised, by
  \<open>loadPath\<close>. Registering routes without navigating raises nothing, whatever the routes
  (\<open>setupRoutes_no_navigate\<close>).
\<close>

lemma config_check_is_neither:
  "(component r = Undefined \<and> redirectTo r = None \<and> \<not> (component r \<noteq> Undefined \<and> redirectTo r \<noteq> None))
     \<longleftrightarrow> (component r = Undefined \<and> redirectTo r = None)"
  by auto

lemma loadPath_neither_set:
  "matchRoute h (routes s) p = Inr (Some r) \<Longrightarrow> component r = Undefined \<Longrightarrow> redirectTo r = None \<Longrightarrow>
   loadPath h p s = (Inl (RouteNeedsComponentOrRedirect (oid r)), s)"
  by (simp add: loadPath_matched)

end
